theory Spec2Isabelle
  imports Main "HOL-Library.Word"
begin

section \<open>Common data\<close>

text \<open>
  A Go \<open>error\<close> value. \<open>errors.New msg\<close> builds a fresh error inside this package;
  every other error comes from a collaborator (PD, TiKV, the SQL session, the importer).
  \<open>errors.Trace\<close> only attaches a stack, so it is the identity here.  A \<open>nil\<close> error is
  \<open>None\<close> of type \<open>error option\<close>.
\<close>

datatype error = ErrorsNew string | External string

definition Trace :: "error option \<Rightarrow> error option" where
  "Trace err = err"

text \<open>A call either returns a value or the Go runtime panics.\<close>

datatype 'a outcome = Returns 'a | Panics string

section \<open>ResetTS (client.go, 140-148)\<close>

text \<open>
  The closure handed to \<open>utils.WithRetry\<close> captures the local variable \<open>i\<close> and the
  argument \<open>pdAddrs\<close>.  The closure state below holds \<open>i\<close> (the field \<open>ivar\<close>) together with the list of
  endpoints that \<open>utils.ResetTS\<close> has been called on so far.  \<open>pd n addr ts\<close> is the
  answer of the PD endpoint \<open>addr\<close> to the \<open>n\<close>-th attempt.
\<close>

record retry_vars =
  ivar :: nat
  contacted :: "string list"

definition resetTSAttempt ::
  "(nat \<Rightarrow> string \<Rightarrow> 64 word \<Rightarrow> error option) \<Rightarrow> string list \<Rightarrow> 64 word \<Rightarrow>
     nat \<Rightarrow> retry_vars \<Rightarrow> error option outcome \<times> retry_vars" where
  "resetTSAttempt pd pdAddrs restoreTS n st =
     (if length pdAddrs = 0 then (Panics ''integer divide by zero'', st)
      else let idx = ivar st mod length pdAddrs in
        (Returns (pd n (pdAddrs ! idx) restoreTS),
         st\<lparr>contacted := contacted st @ [pdAddrs ! idx]\<rparr>))"

text \<open>
  Modelled from the spec: \<open>utils.WithRetry\<close> and the backoff policy
  (\<open>newResetTSBackoffer\<close>) are not under src/.  The spec says the call is retried under a
  bounded-attempt backoff policy and that exhausting the policy is an error for the
  caller: the function is called until it returns no error or the policy's attempts are
  used up, and then the last error is returned.  The waiting time between attempts is
  not modelled.
\<close>

fun WithRetry ::
  "nat \<Rightarrow> nat \<Rightarrow> error option \<Rightarrow> (nat \<Rightarrow> 's \<Rightarrow> error option outcome \<times> 's) \<Rightarrow> 's \<Rightarrow>
     error option outcome \<times> 's" where
  "WithRetry 0 n lastErr fn st = (Returns lastErr, st)"
| "WithRetry (Suc attempts) n lastErr fn st =
     (case fn n st of
        (Panics msg, st') \<Rightarrow> (Panics msg, st')
      | (Returns None, st') \<Rightarrow> (Returns None, st')
      | (Returns (Some e), st') \<Rightarrow> WithRetry attempts (Suc n) (Some e) fn st')"

definition ResetTS ::
  "(nat \<Rightarrow> string \<Rightarrow> 64 word \<Rightarrow> error option) \<Rightarrow> nat \<Rightarrow> 64 word \<Rightarrow> string list \<Rightarrow>
     error option outcome \<times> retry_vars" where
  "ResetTS pd attempts restoreTS pdAddrs =
     WithRetry attempts 0 None (resetTSAttempt pd pdAddrs restoreTS)
       \<lparr>ivar = 0, contacted = []\<rparr>"

text \<open>An endpoint that refuses every request.\<close>

definition pdAlwaysDown :: "nat \<Rightarrow> string \<Rightarrow> 64 word \<Rightarrow> error option" where
  "pdAlwaysDown n addr ts = Some (External ''pd unavailable'')"

subsection \<open>Properties of ResetTS\<close>

lemma WithRetry_resetTS_i:
  "ivar st = 0 \<Longrightarrow> pdAddrs \<noteq> [] \<Longrightarrow>
   WithRetry attempts n lastErr (resetTSAttempt pd pdAddrs ts) st = (r, st') \<Longrightarrow>
   ivar st' = 0 \<and> (\<exists>m \<le> attempts. contacted st' = contacted st @ replicate m (pdAddrs ! 0))"
proof (induction attempts arbitrary: n lastErr st)
  case 0
  then show ?case by simp
next
  case (Suc attempts)
  let ?st1 = "st\<lparr>contacted := contacted st @ [pdAddrs ! 0]\<rparr>"
  have step: "resetTSAttempt pd pdAddrs ts n st = (Returns (pd n (pdAddrs ! 0) ts), ?st1)"
    using Suc.prems(1,2) by (simp add: resetTSAttempt_def Let_def)
  show ?case
  proof (cases "pd n (pdAddrs ! 0) ts")
    case None
    with step Suc.prems(3) have "st' = ?st1" by simp
    then have "ivar st' = 0" and "contacted st' = contacted st @ replicate 1 (pdAddrs ! 0)"
      using Suc.prems(1) by simp_all
    then show ?thesis by (metis Suc_leI zero_less_Suc One_nat_def)
  next
    case (Some e)
    with step Suc.prems(3)
    have rec: "WithRetry attempts (Suc n) (Some e) (resetTSAttempt pd pdAddrs ts) ?st1 = (r, st')"
      by simp
    have "ivar ?st1 = 0" using Suc.prems(1) by simp
    from Suc.IH [OF this Suc.prems(2) rec]
    obtain m where m: "m \<le> attempts" "ivar st' = 0"
      "contacted st' = contacted ?st1 @ replicate m (pdAddrs ! 0)" by blast
    then have "contacted st' = contacted st @ replicate (Suc m) (pdAddrs ! 0)"
      by (simp add: replicate_app_Cons_same)
    with m show ?thesis by (metis Suc_le_mono)
  qed
qed

lemma ResetTS_every_attempt_first_endpoint:
  "\<exists>m \<le> attempts. contacted (snd (ResetTS pd attempts ts (a # b # rest))) = replicate m a"
proof -
  obtain r st' where res: "ResetTS pd attempts ts (a # b # rest) = (r, st')"
    by (cases "ResetTS pd attempts ts (a # b # rest)")
  then have "WithRetry attempts 0 None (resetTSAttempt pd (a # b # rest) ts)
      \<lparr>ivar = 0, contacted = []\<rparr> = (r, st')"
    by (simp add: ResetTS_def)
  from WithRetry_resetTS_i [OF _ _ this]
  obtain m where "m \<le> attempts" "contacted st' = replicate m a" by auto
  with res show ?thesis by auto
qed

text \<open>
  C4: the claim says that successive attempts cycle through the endpoint list.  The
  closure computes \<open>i % len(pdAddrs)\<close> but never increments \<open>i\<close>: with two endpoints
  and a cluster that refuses three attempts, all three attempts go to the first endpoint
  and the second one is never contacted.  The last error is returned once the attempts
  are used up.
\<close>

theorem ResetTS_never_leaves_first_endpoint:
  "ResetTS pdAlwaysDown 3 415000000000000000 [''pd0:2379'', ''pd1:2379''] =
     (Returns (Some (External ''pd unavailable'')),
      \<lparr>ivar = 0, contacted = [''pd0:2379'', ''pd0:2379'', ''pd0:2379'']\<rparr>)"
  by (simp add: ResetTS_def resetTSAttempt_def pdAlwaysDown_def numeral_3_eq_3)

section \<open>The storage nodes as seen through PD and gRPC\<close>

text \<open>
  \<open>import_sstpb.SwitchMode\<close> and the part of \<open>metapb.Store\<close> that the client reads.
  The collaborators are a record of their answers: \<open>GetAllStores\<close> is PD's list of the
  stores that are not tombstones, the other fields are the per-node calls.
\<close>

datatype SwitchMode = Normal | Import

record store =
  GetId :: "64 word"
  GetAddress :: string

record cluster_env =
  GetAllStores :: "error + store list"
  DialContext :: "string \<Rightarrow> error option"
  SwitchModeRPC :: "string \<Rightarrow> SwitchMode \<Rightarrow> error option"
  ConnClose :: "string \<Rightarrow> error option"
  setDownloadSpeedLimit :: "64 word \<Rightarrow> error option"

section \<open>switchTiKVMode (client.go, 324-365)\<close>

text \<open>
  The state of the broadcast: the mode of every node, by address, and the addresses
  dialled so far.  A \<open>SwitchMode\<close> call that returns no error has set the node's mode.
  A failing \<open>conn.Close\<close> is logged and the loop continues, like a successful one.
\<close>

record broadcast =
  modes :: "string \<Rightarrow> SwitchMode"
  dialled :: "string list"

fun switchStores ::
  "cluster_env \<Rightarrow> SwitchMode \<Rightarrow> store list \<Rightarrow> broadcast \<Rightarrow> error option \<times> broadcast" where
  "switchStores env mode [] b = (None, b)"
| "switchStores env mode (st # stores) b =
     (let b1 = b\<lparr>dialled := dialled b @ [GetAddress st]\<rparr> in
      case DialContext env (GetAddress st) of
        Some err \<Rightarrow> (Trace (Some err), b1)
      | None \<Rightarrow>
         (case SwitchModeRPC env (GetAddress st) mode of
            Some err \<Rightarrow> (Trace (Some err), b1)
          | None \<Rightarrow>
             (let b2 = b1\<lparr>modes := (modes b1)(GetAddress st := mode)\<rparr> in
              case ConnClose env (GetAddress st) of
                Some err \<Rightarrow> switchStores env mode stores b2
              | None \<Rightarrow> switchStores env mode stores b2)))"

definition switchTiKVMode ::
  "cluster_env \<Rightarrow> SwitchMode \<Rightarrow> broadcast \<Rightarrow> error option \<times> broadcast" where
  "switchTiKVMode env mode b =
     (case GetAllStores env of
        Inl err \<Rightarrow> (Trace (Some err), b)
      | Inr stores \<Rightarrow> switchStores env mode stores b)"

text \<open>
  The error that contacting one node produces: the dial error, or else the error of the
  \<open>SwitchMode\<close> call.  A node is reachable when there is none.
\<close>

definition nodeError :: "cluster_env \<Rightarrow> SwitchMode \<Rightarrow> store \<Rightarrow> error option" where
  "nodeError env mode st =
     (case DialContext env (GetAddress st) of
        Some err \<Rightarrow> Some err
      | None \<Rightarrow> SwitchModeRPC env (GetAddress st) mode)"

definition reachable :: "cluster_env \<Rightarrow> SwitchMode \<Rightarrow> store \<Rightarrow> bool" where
  "reachable env mode st = (nodeError env mode st = None)"

subsection \<open>Properties of switchTiKVMode\<close>

lemma switchStores_reachable_step:
  "reachable env mode st \<Longrightarrow>
   switchStores env mode (st # stores) b =
     switchStores env mode stores
       (b\<lparr>dialled := dialled b @ [GetAddress st],
          modes := (modes b)(GetAddress st := mode)\<rparr>)"
  by (auto simp: reachable_def nodeError_def Let_def Trace_def split: option.splits)

lemma switchStores_unreachable_step:
  "\<not> reachable env mode st \<Longrightarrow>
   switchStores env mode (st # stores) b =
     (nodeError env mode st, b\<lparr>dialled := dialled b @ [GetAddress st]\<rparr>)"
  by (auto simp: reachable_def nodeError_def Let_def Trace_def split: option.splits)

lemma switchStores_first_unreachable:
  "k < length stores \<Longrightarrow> \<forall>j<k. reachable env mode (stores ! j) \<Longrightarrow>
   \<not> reachable env mode (stores ! k) \<Longrightarrow>
   switchStores env mode stores b = (err, b') \<Longrightarrow>
   err = nodeError env mode (stores ! k) \<and>
   dialled b' = dialled b @ map GetAddress (take (Suc k) stores) \<and>
   (\<forall>a. modes b' a =
      (if a \<in> GetAddress ` set (take k stores) then mode else modes b a))"
proof (induction stores arbitrary: k b)
  case Nil
  then show ?case by simp
next
  case (Cons st stores)
  show ?case
  proof (cases k)
    case 0
    with Cons.prems show ?thesis
      by (simp add: switchStores_unreachable_step del: switchStores.simps) auto
  next
    case (Suc k')
    let ?b1 = "b\<lparr>dialled := dialled b @ [GetAddress st],
                  modes := (modes b)(GetAddress st := mode)\<rparr>"
    from Cons.prems(2) Suc have r0: "reachable env mode st" by auto
    have 1: "k' < length stores" using Cons.prems(1) Suc by simp
    have 2: "\<forall>j<k'. reachable env mode (stores ! j)" using Cons.prems(2) Suc by auto
    have 3: "\<not> reachable env mode (stores ! k')" using Cons.prems(3) Suc by simp
    have 4: "switchStores env mode stores ?b1 = (err, b')"
      using Cons.prems(4) switchStores_reachable_step [OF r0] by simp
    from Cons.IH [OF 1 2 3 4] Suc show ?thesis by auto
  qed
qed

text \<open>
  C7: PD lists M live stores and store \<open>k\<close> is the first one that cannot be reached
  (its dial or its \<open>SwitchMode\<close> call fails).  Then \<open>switchTiKVMode\<close> returns the error of
  store \<open>k\<close>, which is not nil; it has dialled exactly the stores up to \<open>k\<close> and none after
  it; every store before \<open>k\<close> is left in the new mode and every other node keeps the mode
  it had.
\<close>

theorem switchTiKVMode_first_unreachable:
  assumes "GetAllStores env = Inr stores"
    and "k < length stores"
    and "\<forall>j<k. reachable env mode (stores ! j)"
    and "\<not> reachable env mode (stores ! k)"
  shows "fst (switchTiKVMode env mode b) = nodeError env mode (stores ! k)
    \<and> fst (switchTiKVMode env mode b) \<noteq> None
    \<and> dialled (snd (switchTiKVMode env mode b)) =
        dialled b @ map GetAddress (take (Suc k) stores)
    \<and> (\<forall>j<k. modes (snd (switchTiKVMode env mode b)) (GetAddress (stores ! j)) = mode)
    \<and> (\<forall>a. a \<notin> GetAddress ` set (take k stores) \<longrightarrow>
          modes (snd (switchTiKVMode env mode b)) a = modes b a)"
proof -
  obtain err b' where res: "switchStores env mode stores b = (err, b')"
    by (cases "switchStores env mode stores b")
  from switchStores_first_unreachable [OF assms(2,3,4) res]
  have e: "err = nodeError env mode (stores ! k)"
    and d: "dialled b' = dialled b @ map GetAddress (take (Suc k) stores)"
    and m: "\<And>a. modes b' a =
      (if a \<in> GetAddress ` set (take k stores) then mode else modes b a)"
    by auto
  have sw: "switchTiKVMode env mode b = (err, b')"
    using assms(1) res by (simp add: switchTiKVMode_def)
  have ne: "err \<noteq> None" using e assms(4) by (simp add: reachable_def)
  have before: "\<forall>j<k. modes b' (GetAddress (stores ! j)) = mode"
  proof (intro allI impI)
    fix j assume "j < k"
    then have "stores ! j \<in> set (take k stores)"
      using assms(2) by (metis in_set_conv_nth length_take min.absorb2 nth_take
          less_imp_le_nat)
    then show "modes b' (GetAddress (stores ! j)) = mode" using m by auto
  qed
  show ?thesis using sw e d ne before m by simp
qed

text \<open>
  Three stores, the third one refusing the connection: the first two are switched to
  import mode and stay so, the third keeps its mode, and the call returns its error.
\<close>

definition threeStores :: "store list" where
  "threeStores =
     [\<lparr>GetId = 1, GetAddress = ''tikv1''\<rparr>, \<lparr>GetId = 2, GetAddress = ''tikv2''\<rparr>,
      \<lparr>GetId = 3, GetAddress = ''tikv3''\<rparr>]"

definition thirdDown :: cluster_env where
  "thirdDown =
     \<lparr>GetAllStores = Inr threeStores,
      DialContext = (\<lambda>a. if a = ''tikv3'' then Some (External ''connection refused'') else None),
      SwitchModeRPC = (\<lambda>a m. None),
      ConnClose = (\<lambda>a. None),
      setDownloadSpeedLimit = (\<lambda>n. None)\<rparr>"

definition allNormal :: broadcast where
  "allNormal = \<lparr>modes = (\<lambda>a. Normal), dialled = []\<rparr>"

lemma thirdDown_reachable:
  "reachable thirdDown Import (threeStores ! 0)"
  "reachable thirdDown Import (threeStores ! 1)"
  "\<not> reachable thirdDown Import (threeStores ! 2)"
  by (simp_all add: reachable_def nodeError_def thirdDown_def threeStores_def)

theorem switchTiKVMode_first_unreachable_witness:
  "fst (switchTiKVMode thirdDown Import allNormal) = Some (External ''connection refused'')
   \<and> dialled (snd (switchTiKVMode thirdDown Import allNormal)) = [''tikv1'', ''tikv2'', ''tikv3'']
   \<and> modes (snd (switchTiKVMode thirdDown Import allNormal)) ''tikv1'' = Import
   \<and> modes (snd (switchTiKVMode thirdDown Import allNormal)) ''tikv2'' = Import
   \<and> modes (snd (switchTiKVMode thirdDown Import allNormal)) ''tikv3'' = Normal"
proof -
  have g: "GetAllStores thirdDown = Inr threeStores" by (simp add: thirdDown_def)
  have k: "(2::nat) < length threeStores" by (simp add: threeStores_def)
  have r: "\<forall>j<2::nat. reachable thirdDown Import (threeStores ! j)"
    using thirdDown_reachable(1,2) by (auto simp: less_Suc_eq numeral_2_eq_2)
  note t = switchTiKVMode_first_unreachable [OF g k r thirdDown_reachable(3), of allNormal]
  have e: "nodeError thirdDown Import (threeStores ! 2) = Some (External ''connection refused'')"
    by (simp add: nodeError_def thirdDown_def threeStores_def)
  have d: "dialled allNormal @ map GetAddress (take (Suc 2) threeStores) =
      [''tikv1'', ''tikv2'', ''tikv3'']"
    by (simp add: allNormal_def threeStores_def)
  note before = t [THEN conjunct2, THEN conjunct2, THEN conjunct2, THEN conjunct1, rule_format]
  note others = t [THEN conjunct2, THEN conjunct2, THEN conjunct2, THEN conjunct2, rule_format]
  have m1: "modes (snd (switchTiKVMode thirdDown Import allNormal)) ''tikv1'' = Import"
    using before [of 0] by (simp add: threeStores_def)
  have m2: "modes (snd (switchTiKVMode thirdDown Import allNormal)) ''tikv2'' = Import"
    using before [of 1] by (simp add: threeStores_def)
  have "''tikv3'' \<notin> GetAddress ` set (take 2 threeStores)"
    by (simp add: threeStores_def)
  from others [OF this]
  have m3: "modes (snd (switchTiKVMode thirdDown Import allNormal)) ''tikv3'' = Normal"
    by (simp add: allNormal_def)
  have r1: "fst (switchTiKVMode thirdDown Import allNormal) = Some (External ''connection refused'')"
    using t [THEN conjunct1] e by simp
  have r2: "dialled (snd (switchTiKVMode thirdDown Import allNormal)) = [''tikv1'', ''tikv2'', ''tikv3'']"
    using t [THEN conjunct2, THEN conjunct2, THEN conjunct1] d by simp
  show ?thesis using r1 r2 m1 m2 m3 by blast
qed

section \<open>The restore client (client.go, 35-51)\<close>

text \<open>
  The fields of \<open>Client\<close> that the functions below read or write.  \<open>ctxDone\<close> says
  whether \<open>rc.ctx\<close> has been cancelled: \<open>rc.cancel()\<close> sets it, and nothing resets it.
\<close>

record Client =
  ctxDone :: bool
  rateLimit :: "64 word"
  isOnline :: bool
  hasSpeedLimited :: bool

definition SetRateLimit :: "64 word \<Rightarrow> Client \<Rightarrow> Client" where
  "SetRateLimit r rc = rc\<lparr>rateLimit := r\<rparr>"

definition EnableOnline :: "Client \<Rightarrow> Client" where
  "EnableOnline rc = rc\<lparr>isOnline := True\<rparr>"

section \<open>setSpeedLimit (client.go, 239-254)\<close>

text \<open>
  The loop over the stores, with the list of the store ids that
  \<open>setDownloadSpeedLimit\<close> has been called for.
\<close>

fun limitStores ::
  "cluster_env \<Rightarrow> store list \<Rightarrow> 64 word list \<Rightarrow> error option \<times> 64 word list" where
  "limitStores env [] rpcs = (None, rpcs)"
| "limitStores env (st # stores) rpcs =
     (case setDownloadSpeedLimit env (GetId st) of
        Some err \<Rightarrow> (Some err, rpcs @ [GetId st])
      | None \<Rightarrow> limitStores env stores (rpcs @ [GetId st]))"

definition setSpeedLimit ::
  "cluster_env \<Rightarrow> Client \<Rightarrow> error option \<times> Client \<times> 64 word list" where
  "setSpeedLimit env rc =
     (if \<not> hasSpeedLimited rc \<and> rateLimit rc \<noteq> 0 then
        (case GetAllStores env of
           Inl err \<Rightarrow> (Some err, rc, [])
         | Inr stores \<Rightarrow>
            (case limitStores env stores [] of
               (Some err, rpcs) \<Rightarrow> (Some err, rc, rpcs)
             | (None, rpcs) \<Rightarrow> (None, rc\<lparr>hasSpeedLimited := True\<rparr>, rpcs)))
      else (None, rc, []))"

section \<open>RestoreFiles (client.go, 257-312)\<close>

text \<open>
  After \<open>setSpeedLimit\<close>, \<open>RestoreFiles\<close> runs one goroutine per file next to its own two
  loops.  The model is a transition system whose steps are the atomic actions of the
  goroutines; a run is a list of actions chosen by the scheduler.

  A task (the closure given to \<open>workerPool.Apply\<close>) is in one of these places:
  \<^item> \<open>Queued\<close>: not yet handed to the pool;
  \<^item> \<open>Importing\<close>: started, evaluating \<open>rc.fileImporter.Import\<close>, which Go evaluates on
    entering the \<open>select\<close> statement, before any case is chosen;
  \<^item> \<open>AtSelect r\<close>: \<open>Import\<close> has returned \<open>r\<close> and the \<open>select\<close> waits for a ready case;
  \<^item> \<open>Sent\<close>: the second case was taken, the result is in \<open>errCh\<close>, and the task is about
    to send on \<open>updateCh\<close>;
  \<^item> \<open>Finished\<close>: the closure has returned and \<open>wg.Done\<close> has run.
\<close>

datatype task = Queued | Importing | AtSelect "error option" | Sent | Finished

text \<open>
  The caller is in the first loop about to submit file \<open>k\<close>, in the second loop having
  taken \<open>j\<close> values from \<open>errCh\<close>, in \<open>wg.Wait()\<close> after a non-nil error, or it has returned.
\<close>

datatype main_loc = Dispatching nat | Receiving nat | Waiting error | Returned "error option"

text \<open>
  \<open>errCh\<close> is kept as the list of every value sent so far, each with the index of the
  task that sent it, and the number of values the caller has received; the channel
  holds the values from position \<open>received\<close> on.  Its capacity is the number of files.
  \<open>updates\<close> counts the sends on \<open>updateCh\<close>, whose reader is assumed to be always ready.
\<close>

record restore =
  tasks :: "task list"
  errCh :: "(nat \<times> error option) list"
  received :: nat
  updates :: nat
  cancelled :: bool
  pc :: main_loc

datatype action = Main | RunImport nat | SelectDone nat | SelectSend nat | Update nat

fun active :: "task \<Rightarrow> bool" where
  "active Queued = False"
| "active Finished = False"
| "active t = True"

definition busy :: "restore \<Rightarrow> nat" where
  "busy s = length (filter active (tasks s))"

definition room :: "restore \<Rightarrow> bool" where
  "room s = (length (errCh s) - received s < length (tasks s))"

text \<open>
  Modelled from the spec: \<open>utils.WorkerPool\<close> is not under src/.  The spec says that
  submitting blocks the caller only while the pool is saturated: with \<open>width\<close> workers,
  \<open>Apply\<close> starts the task as soon as fewer than \<open>width\<close> tasks are running.

  \<open>imp i\<close> is what \<open>Import\<close> returns for the \<open>i\<close>-th file.  A step is \<open>None\<close> when the
  action cannot happen in the state (the goroutine is elsewhere, or it is blocked).
\<close>

fun step :: "(nat \<Rightarrow> error option) \<Rightarrow> nat \<Rightarrow> action \<Rightarrow> restore \<Rightarrow> restore option" where
  "step imp width Main s =
     (case pc s of
        Dispatching k \<Rightarrow>
          if k < length (tasks s) then
            (if busy s < width
             then Some (s\<lparr>tasks := (tasks s)[k := Importing], pc := Dispatching (Suc k)\<rparr>)
             else None)
          else Some (s\<lparr>pc := Receiving 0\<rparr>)
      | Receiving j \<Rightarrow>
          if j < length (tasks s) then
            (if received s < length (errCh s) then
               (case snd (errCh s ! received s) of
                  None \<Rightarrow> Some (s\<lparr>received := Suc (received s), pc := Receiving (Suc j)\<rparr>)
                | Some err \<Rightarrow>
                    Some (s\<lparr>received := Suc (received s), cancelled := True, pc := Waiting err\<rparr>))
             else None)
          else Some (s\<lparr>pc := Returned None\<rparr>)
      | Waiting err \<Rightarrow>
          if list_all (\<lambda>t. t = Finished) (tasks s) then Some (s\<lparr>pc := Returned (Some err)\<rparr>)
          else None
      | Returned r \<Rightarrow> None)"
| "step imp width (RunImport i) s =
     (if i < length (tasks s) \<and> tasks s ! i = Importing
      then Some (s\<lparr>tasks := (tasks s)[i := AtSelect (imp i)]\<rparr>)
      else None)"
| "step imp width (SelectDone i) s =
     (if i < length (tasks s) \<and> cancelled s \<and> room s then
        (case tasks s ! i of
           AtSelect r \<Rightarrow>
             Some (s\<lparr>tasks := (tasks s)[i := Finished], errCh := errCh s @ [(i, None)]\<rparr>)
         | _ \<Rightarrow> None)
      else None)"
| "step imp width (SelectSend i) s =
     (if i < length (tasks s) \<and> room s then
        (case tasks s ! i of
           AtSelect r \<Rightarrow>
             Some (s\<lparr>tasks := (tasks s)[i := Sent], errCh := errCh s @ [(i, r)]\<rparr>)
         | _ \<Rightarrow> None)
      else None)"
| "step imp width (Update i) s =
     (if i < length (tasks s) \<and> tasks s ! i = Sent
      then Some (s\<lparr>tasks := (tasks s)[i := Finished], updates := Suc (updates s)\<rparr>)
      else None)"

fun run :: "(nat \<Rightarrow> error option) \<Rightarrow> nat \<Rightarrow> action list \<Rightarrow> restore \<Rightarrow> restore option" where
  "run imp width [] s = Some s"
| "run imp width (a # as) s =
     (case step imp width a s of None \<Rightarrow> None | Some s' \<Rightarrow> run imp width as s')"

definition start :: "nat \<Rightarrow> bool \<Rightarrow> restore" where
  "start n done =
     \<lparr>tasks = replicate n Queued, errCh = [], received = 0, updates = 0,
      cancelled = done, pc = Dispatching 0\<rparr>"

text \<open>
  The whole call on \<open>n\<close> files under the schedule \<open>sched\<close>: the error of \<open>setSpeedLimit\<close> is
  returned at once; otherwise the state that the schedule leads to, with the client as the
  call leaves it and the rate-limit calls issued.  The result is \<open>None\<close> when the
  schedule is not one the program can follow.
\<close>

definition RestoreFiles ::
  "cluster_env \<Rightarrow> (nat \<Rightarrow> error option) \<Rightarrow> nat \<Rightarrow> nat \<Rightarrow> action list \<Rightarrow> Client \<Rightarrow>
     (restore \<times> Client \<times> 64 word list) option" where
  "RestoreFiles env imp width n sched rc =
     (case setSpeedLimit env rc of
        (Some err, rc1, rpcs) \<Rightarrow>
          Some ((start n (ctxDone rc1))\<lparr>pc := Returned (Some err)\<rparr>, rc1, rpcs)
      | (None, rc1, rpcs) \<Rightarrow>
         (case run imp width sched (start n (ctxDone rc1)) of
            None \<Rightarrow> None
          | Some s \<Rightarrow> Some (s, rc1\<lparr>ctxDone := cancelled s\<rparr>, rpcs)))"

text \<open>
  A client's life after the first batch: any sequence of \<open>SetRateLimit\<close>, \<open>EnableOnline\<close>
  and \<open>RestoreFiles\<close> calls, each batch with its own cluster, files and schedule.  The
  result collects the rate-limit calls of all the batches.
\<close>

datatype call =
  DoSetRateLimit "64 word"
| DoEnableOnline
| DoRestoreFiles cluster_env "nat \<Rightarrow> error option" nat nat "action list"

fun calls :: "call list \<Rightarrow> Client \<Rightarrow> (Client \<times> 64 word list) option" where
  "calls [] rc = Some (rc, [])"
| "calls (DoSetRateLimit r # cs) rc = calls cs (SetRateLimit r rc)"
| "calls (DoEnableOnline # cs) rc = calls cs (EnableOnline rc)"
| "calls (DoRestoreFiles env imp width n sched # cs) rc =
     (case RestoreFiles env imp width n sched rc of
        None \<Rightarrow> None
      | Some (s, rc1, rpcs) \<Rightarrow>
         (case calls cs rc1 of
            None \<Rightarrow> None
          | Some (rc2, later) \<Rightarrow> Some (rc2, rpcs @ later)))"

subsection \<open>The rate limit is applied once\<close>

lemma limitStores_ok:
  "limitStores env stores rpcs = (None, rpcs') \<Longrightarrow> rpcs' = rpcs @ map GetId stores"
  by (induction stores arbitrary: rpcs) (fastforce split: option.splits)+

lemma setSpeedLimit_limited:
  "hasSpeedLimited rc \<Longrightarrow> setSpeedLimit env rc = (None, rc, [])"
  by (simp add: setSpeedLimit_def)

lemma setSpeedLimit_applied:
  assumes "setSpeedLimit env rc = (None, rc1, rpcs)"
    and "\<not> hasSpeedLimited rc" and "rateLimit rc \<noteq> 0"
  shows "rc1 = rc\<lparr>hasSpeedLimited := True\<rparr>"
    and "\<exists>stores. GetAllStores env = Inr stores \<and> rpcs = map GetId stores"
  using assms
  by (auto simp: setSpeedLimit_def split: sum.splits prod.splits option.splits
      dest: limitStores_ok)

lemma RestoreFiles_limited:
  assumes "hasSpeedLimited rc" and "RestoreFiles env imp width n sched rc = Some (s, rc1, rpcs)"
  shows "rpcs = [] \<and> hasSpeedLimited rc1"
  using assms
  by (auto simp: RestoreFiles_def setSpeedLimit_limited split: option.splits)

lemma calls_limited:
  "hasSpeedLimited rc \<Longrightarrow> calls cs rc = Some (rc2, later) \<Longrightarrow> later = [] \<and> hasSpeedLimited rc2"
proof (induction cs rc arbitrary: rc2 later rule: calls.induct)
  case (1 rc)
  then show ?case by simp
next
  case (2 r cs rc)
  then show ?case by (simp add: SetRateLimit_def)
next
  case (3 cs rc)
  then show ?case by (simp add: EnableOnline_def)
next
  case (4 env imp width n sched cs rc)
  from "4.prems"(2) obtain s rc1 rpcs rc2' later'
    where rf: "RestoreFiles env imp width n sched rc = Some (s, rc1, rpcs)"
      and rest: "calls cs rc1 = Some (rc2', later')"
      and eq: "rc2 = rc2'" "later = rpcs @ later'"
    by (auto split: option.splits prod.splits)
  from RestoreFiles_limited [OF "4.prems"(1) rf]
  have r: "rpcs = []" and h: "hasSpeedLimited rc1" by simp_all
  from "4.IH" [OF rf refl refl h rest] have "later' = [] \<and> hasSpeedLimited rc2'" .
  with r eq show ?case by simp
qed

text \<open>
  C8: the first batch that runs with a rate limit configured and the flag unset, and
  whose \<open>setSpeedLimit\<close> succeeds, calls \<open>setDownloadSpeedLimit\<close> once for each store
  that PD lists, in order, and sets \<open>hasSpeedLimited\<close>.  After that no sequence of later
  calls on the same client issues a rate-limit call, whatever the cluster answers and
  whatever rate limit is set in between, and the flag stays set.
\<close>

theorem setSpeedLimit_one_shot:
  assumes "RestoreFiles env imp width n sched rc = Some (s, rc1, rpcs)"
    and "fst (setSpeedLimit env rc) = None"
    and "\<not> hasSpeedLimited rc" and "rateLimit rc \<noteq> 0"
  shows "hasSpeedLimited rc1
    \<and> (\<exists>stores. GetAllStores env = Inr stores \<and> rpcs = map GetId stores)
    \<and> (\<forall>cs rc2 later. calls cs rc1 = Some (rc2, later) \<longrightarrow> later = [] \<and> hasSpeedLimited rc2)"
proof -
  obtain rc0 rpcs0 where sl: "setSpeedLimit env rc = (None, rc0, rpcs0)"
    using assms(2) by (cases "setSpeedLimit env rc") auto
  from setSpeedLimit_applied [OF sl assms(3,4)]
  have rc0: "rc0 = rc\<lparr>hasSpeedLimited := True\<rparr>"
    and st: "\<exists>stores. GetAllStores env = Inr stores \<and> rpcs0 = map GetId stores"
    by simp_all
  from assms(1) sl have "rpcs = rpcs0" and "hasSpeedLimited rc1"
    by (auto simp: RestoreFiles_def rc0 split: option.splits)
  with st calls_limited show ?thesis by blast
qed

text \<open>
  A cluster of three stores that accept every call, a client with a rate limit of
  1 MiB/s, an importer that succeeds, and the schedule of a batch of one file: submit,
  import, send the result, send the progress update, then the caller's three steps.
\<close>

definition allUp :: cluster_env where
  "allUp =
     \<lparr>GetAllStores = Inr threeStores, DialContext = (\<lambda>a. None),
      SwitchModeRPC = (\<lambda>a m. None), ConnClose = (\<lambda>a. None),
      setDownloadSpeedLimit = (\<lambda>n. None)\<rparr>"

definition freshClient :: Client where
  "freshClient = \<lparr>ctxDone = False, rateLimit = 1048576, isOnline = False, hasSpeedLimited = False\<rparr>"

definition importsOk :: "nat \<Rightarrow> error option" where
  "importsOk i = None"

definition oneFileSchedule :: "action list" where
  "oneFileSchedule = [Main, RunImport 0, SelectSend 0, Update 0, Main, Main, Main]"

lemma RestoreFiles_fresh_one_file:
  "RestoreFiles allUp importsOk 4 1 oneFileSchedule freshClient =
     Some (\<lparr>tasks = [Finished], errCh = [(0, None)], received = 1, updates = 1,
             cancelled = False, pc = Returned None\<rparr>,
           freshClient\<lparr>hasSpeedLimited := True\<rparr>, [1, 2, 3])"
  by (simp add: RestoreFiles_def setSpeedLimit_def allUp_def threeStores_def freshClient_def
      importsOk_def oneFileSchedule_def start_def busy_def room_def)

theorem setSpeedLimit_one_shot_witness:
  "RestoreFiles allUp importsOk 4 1 oneFileSchedule freshClient =
     Some (\<lparr>tasks = [Finished], errCh = [(0, None)], received = 1, updates = 1,
             cancelled = False, pc = Returned None\<rparr>,
           freshClient\<lparr>hasSpeedLimited := True\<rparr>, [1, 2, 3])
   \<and> calls [DoSetRateLimit 2097152, DoRestoreFiles allUp importsOk 4 1 oneFileSchedule]
        (freshClient\<lparr>hasSpeedLimited := True\<rparr>) =
      Some (freshClient\<lparr>hasSpeedLimited := True, rateLimit := 2097152\<rparr>, [])"
proof -
  have 1: "fst (setSpeedLimit allUp freshClient) = None"
    by (simp add: setSpeedLimit_def allUp_def threeStores_def freshClient_def)
  have 2: "\<not> hasSpeedLimited freshClient" and 3: "rateLimit freshClient \<noteq> 0"
    by (simp_all add: freshClient_def)
  note t = setSpeedLimit_one_shot [OF RestoreFiles_fresh_one_file 1 2 3]
  have c: "calls [DoSetRateLimit 2097152, DoRestoreFiles allUp importsOk 4 1 oneFileSchedule]
        (freshClient\<lparr>hasSpeedLimited := True\<rparr>) =
      Some (freshClient\<lparr>hasSpeedLimited := True, rateLimit := 2097152\<rparr>,
        snd (the (calls [DoSetRateLimit 2097152,
          DoRestoreFiles allUp importsOk 4 1 oneFileSchedule]
          (freshClient\<lparr>hasSpeedLimited := True\<rparr>))))"
    by (simp add: RestoreFiles_def setSpeedLimit_def SetRateLimit_def freshClient_def
        importsOk_def oneFileSchedule_def start_def busy_def room_def)
  from t [THEN conjunct2, THEN conjunct2, rule_format, OF c]
  have "snd (the (calls [DoSetRateLimit 2097152,
          DoRestoreFiles allUp importsOk 4 1 oneFileSchedule]
          (freshClient\<lparr>hasSpeedLimited := True\<rparr>))) = []" by simp
  with c RestoreFiles_fresh_one_file show ?thesis by simp
qed

subsection \<open>The progress counter and a failing import\<close>

definition importFails :: "nat \<Rightarrow> error option" where
  "importFails i = Some (External ''import failed'')"

text \<open>
  C5: the claim says that a segment whose import fails does not increment the progress
  counter.  The second case of the \<open>select\<close> sends on \<open>updateCh\<close> after it has put the
  result of \<open>Import\<close> into \<open>errCh\<close>, without looking at the result: a batch of one file
  whose import fails returns that error and has incremented the counter once.
\<close>

theorem RestoreFiles_counts_failed_import:
  "map_option (\<lambda>(s, rc, rpcs). (pc s, updates s))
     (RestoreFiles allUp importFails 4 1 oneFileSchedule freshClient) =
   Some (Returned (Some (External ''import failed'')), 1)"
  by (simp add: RestoreFiles_def setSpeedLimit_def allUp_def threeStores_def freshClient_def
      importFails_def oneFileSchedule_def start_def busy_def room_def)

subsection \<open>A context that is already cancelled\<close>

definition cancelledClient :: Client where
  "cancelledClient = \<lparr>ctxDone = True, rateLimit = 0, isOnline = False, hasSpeedLimited = False\<rparr>"

definition cancelledSchedule :: "action list" where
  "cancelledSchedule = [Main, RunImport 0, SelectDone 0, Main, Main, Main]"

text \<open>
  C6: the claim says that \<open>RestoreFiles\<close> returns nil only if every import ran and
  returned no error.  On a client whose context is already cancelled (by \<open>Close\<close>, by the
  parent context, or by an earlier batch that failed) the first case of the \<open>select\<close> is
  ready: the task sends nil in place of the import's error, the caller takes the nil as
  a success, and a batch of one file whose import fails returns nil.
\<close>

theorem RestoreFiles_nil_for_failed_import:
  "map_option (\<lambda>(s, rc, rpcs). (pc s, tasks s, errCh s))
     (RestoreFiles allUp importFails 4 1 cancelledSchedule cancelledClient) =
   Some (Returned None, [Finished], [(0, None)])"
  by (simp add: RestoreFiles_def setSpeedLimit_def cancelledClient_def
      importFails_def cancelledSchedule_def start_def busy_def room_def)

end
